theory Spec2Isabelle
  imports Complex_Main "HOL-Library.Multiset"
begin

section \<open>JavaScript numbers\<close>

text \<open>
  A JavaScript number is modelled as \<open>NaN\<close> or an exact real: the rounding of IEEE
  doubles and the two infinities are abstracted away, \<open>NaN\<close> is kept because
  \<open>parseInt\<close> produces it. Arithmetic propagates \<open>NaN\<close>; every comparison with
  \<open>NaN\<close> is false, as in the language. The only division of the program is by 1000.
\<close>

datatype jsnum = NaN | Num real

fun js_lift2 :: "(real \<Rightarrow> real \<Rightarrow> real) \<Rightarrow> jsnum \<Rightarrow> jsnum \<Rightarrow> jsnum" where
  "js_lift2 f (Num x) (Num y) = Num (f x y)"
| "js_lift2 f _ _ = NaN"

definition js_add :: "jsnum \<Rightarrow> jsnum \<Rightarrow> jsnum" where
  "js_add = js_lift2 (+)"

definition js_sub :: "jsnum \<Rightarrow> jsnum \<Rightarrow> jsnum" where
  "js_sub = js_lift2 (-)"

definition js_mul :: "jsnum \<Rightarrow> jsnum \<Rightarrow> jsnum" where
  "js_mul = js_lift2 (*)"

definition js_div :: "jsnum \<Rightarrow> jsnum \<Rightarrow> jsnum" where
  "js_div = js_lift2 (/)"

fun js_gt :: "jsnum \<Rightarrow> jsnum \<Rightarrow> bool" where
  "js_gt (Num x) (Num y) = (x > y)"
| "js_gt _ _ = False"

fun js_le :: "jsnum \<Rightarrow> jsnum \<Rightarrow> bool" where
  "js_le (Num x) (Num y) = (x \<le> y)"
| "js_le _ _ = False"

text \<open>Strict equality \<open>===\<close> on numbers.\<close>

fun js_seq :: "jsnum \<Rightarrow> jsnum \<Rightarrow> bool" where
  "js_seq (Num x) (Num y) = (x = y)"
| "js_seq _ _ = False"

section \<open>Strings, \<open>parseInt\<close> and the timestamp codec\<close>

text \<open>
  A string is a list of code units below 256. The white space of \<open>trim\<close> and of
  \<open>parseInt\<close> is then tab, line feed, vertical tab, form feed, carriage return, space
  and the no-break space.
\<close>

definition is_ws :: "char \<Rightarrow> bool" where
  "is_ws c = (c \<in> {CHR 0x09, CHR 0x0A, CHR 0x0B, CHR 0x0C, CHR 0x0D, CHR 0x20, CHR 0xA0})"

definition trim :: "string \<Rightarrow> string" where
  "trim s = rev (dropWhile is_ws (rev (dropWhile is_ws s)))"

text \<open>
  \<open>str.split(sep)\<close> for a separator of one character: the pieces between the
  occurrences of the separator, at least one piece.
\<close>

fun cons_first :: "char \<Rightarrow> string list \<Rightarrow> string list" where
  "cons_first c [] = [[c]]"
| "cons_first c (p # ps) = (c # p) # ps"

fun split_on :: "char \<Rightarrow> string \<Rightarrow> string list" where
  "split_on sep [] = [[]]"
| "split_on sep (c # cs) =
     (if c = sep then [] # split_on sep cs else cons_first c (split_on sep cs))"

text \<open>
  An element of an array taken by a destructuring pattern or an index: \<open>undefined\<close>
  (here \<open>None\<close>) beyond the end.
\<close>

definition nth_opt :: "'a list \<Rightarrow> nat \<Rightarrow> 'a option" where
  "nth_opt xs i = (if i < length xs then Some (xs ! i) else None)"

text \<open>
  The value of a character as a digit: \<open>0\<close> to \<open>9\<close>, then the letters of either case
  from 10 on.
\<close>

definition digit_of :: "char \<Rightarrow> nat option" where
  "digit_of c =
     (let n = (of_char c :: nat)
      in if 48 \<le> n \<and> n \<le> 57 then Some (n - 48)
         else if 97 \<le> n \<and> n \<le> 122 then Some (n - 87)
         else if 65 \<le> n \<and> n \<le> 90 then Some (n - 55)
         else None)"

definition is_radix_digit :: "nat \<Rightarrow> char \<Rightarrow> bool" where
  "is_radix_digit R c = (case digit_of c of None \<Rightarrow> False | Some d \<Rightarrow> d < R)"

definition digits_value :: "nat \<Rightarrow> string \<Rightarrow> nat" where
  "digits_value R Z = foldl (\<lambda>acc c. acc * R + (case digit_of c of None \<Rightarrow> 0 | Some d \<Rightarrow> d)) 0 Z"

text \<open>
  \<open>parseInt(string)\<close> with no radix, on a string: leading white space is dropped, a
  sign is read, a prefix \<open>0x\<close> or \<open>0X\<close> selects the radix 16, and the longest run of
  digits of the radix is the value; with no digit the result is \<open>NaN\<close>.
\<close>

definition parseInt_string :: "string \<Rightarrow> jsnum" where
  "parseInt_string inputString =
     (let S = dropWhile is_ws inputString;
          sign = (if S \<noteq> [] \<and> hd S = CHR ''-'' then - 1 else (1::real));
          S1 = (if S \<noteq> [] \<and> (hd S = CHR ''+'' \<or> hd S = CHR ''-'') then tl S else S);
          hex = (take 2 S1 = ''0x'' \<or> take 2 S1 = ''0X'');
          R = (if hex then 16 else 10);
          S2 = (if hex then drop 2 S1 else S1);
          Z = takeWhile (is_radix_digit R) S2
      in if Z = [] then NaN else Num (sign * real (digits_value R Z)))"

text \<open>The argument \<open>undefined\<close> is first converted to the string \<open>undefined\<close>.\<close>

definition parseInt :: "string option \<Rightarrow> jsnum" where
  "parseInt v = (case v of None \<Rightarrow> parseInt_string ''undefined'' | Some s \<Rightarrow> parseInt_string s)"

datatype js_error = TypeError

text \<open>
  \<open>parseTimestamp(timeStr)\<close>; the argument is a string or \<open>undefined\<close> (\<open>None\<close>).
  Calling \<open>split\<close> on the \<open>undefined\<close> third piece throws a \<open>TypeError\<close>.
\<close>

definition parseTimestamp :: "string option \<Rightarrow> js_error + jsnum" where
  "parseTimestamp timeStr =
     (case timeStr of
        None \<Rightarrow> Inr (Num 0)
      | Some t \<Rightarrow>
          (if t = [] then Inr (Num 0)
           else
             (let hms = split_on CHR '':'' t;
                  h = nth_opt hms 0; m = nth_opt hms 1; s = nth_opt hms 2
              in (case s of
                    None \<Rightarrow> Inl TypeError
                  | Some s' \<Rightarrow>
                      (let secms = split_on CHR '','' s';
                           sec = nth_opt secms 0; ms = nth_opt secms 1
                       in Inr (js_add
                                (js_add
                                  (js_add (js_mul (parseInt h) (Num 3600))
                                          (js_mul (parseInt m) (Num 60)))
                                  (parseInt sec))
                                (js_div (parseInt ms) (Num 1000))))))))"

text \<open>The character class \<open>\d\<close> and the value of a decimal digit.\<close>

definition is_digit :: "char \<Rightarrow> bool" where
  "is_digit c = (48 \<le> (of_char c :: nat) \<and> (of_char c :: nat) \<le> 57)"

definition digit_value :: "char \<Rightarrow> real" where
  "digit_value c = real (of_char c - 48)"

section \<open>Subtitle entries\<close>

text \<open>
  The object pushed by \<open>parseSRT\<close>. The fields \<open>id\<close> and \<open>text\<close> of the source are
  \<open>id_e\<close> and \<open>text_e\<close> here.
\<close>

record entry =
  id_e :: string
  timeLine :: string
  startSeconds :: jsnum
  text_e :: string
  fullBlock :: string

section \<open>The subtitle parser \<open>parseSRT\<close>\<close>

text \<open>\<open>srtContent.replace(/\r\n/g, '\n')\<close>: every carriage return and line feed pair becomes a line feed.\<close>

fun replace_crlf :: "string \<Rightarrow> string" where
  "replace_crlf (a # b # cs) =
     (if a = CHR 0x0D \<and> b = CHR 0x0A then CHR 0x0A # replace_crlf cs
      else a # replace_crlf (b # cs))"
| "replace_crlf cs = cs"

text \<open>
  \<open>split('\n\n')\<close>: the pieces between the occurrences of two line feeds, found from
  the left without overlap.
\<close>

fun split_blocks :: "string \<Rightarrow> string list" where
  "split_blocks (a # b # cs) =
     (if a = CHR 0x0A \<and> b = CHR 0x0A then [] # split_blocks cs
      else cons_first a (split_blocks (b # cs)))"
| "split_blocks cs = [cs]"

text \<open>\<open>block.split('\n').filter(l => l.trim() !== '')\<close>.\<close>

definition block_lines :: "string \<Rightarrow> string list" where
  "block_lines block = filter (\<lambda>l. trim l \<noteq> []) (split_on (CHR 0x0A) block)"

text \<open>\<open>join(' ')\<close>.\<close>

fun join_space :: "string list \<Rightarrow> string" where
  "join_space [] = []"
| "join_space [l] = l"
| "join_space (l # ls) = l @ CHR '' '' # join_space ls"

text \<open>
  The regular expression \<open>(\d{2}:\d{2}:\d{2},\d{3}) -->\<close> as a sequence of
  character tests, and its leftmost match in a line: the result is the text of the
  group, the first 12 characters of the match.
\<close>

datatype char_test = Digit | Lit char

fun char_ok :: "char_test \<Rightarrow> char \<Rightarrow> bool" where
  "char_ok Digit c = is_digit c"
| "char_ok (Lit l) c = (c = l)"

fun match_here :: "char_test list \<Rightarrow> string \<Rightarrow> bool" where
  "match_here [] cs = True"
| "match_here (p # ps) [] = False"
| "match_here (p # ps) (c # cs) = (char_ok p c \<and> match_here ps cs)"

definition time_pattern :: "char_test list" where
  "time_pattern =
     [Digit, Digit, Lit CHR '':'', Digit, Digit, Lit CHR '':'', Digit, Digit, Lit CHR '','',
      Digit, Digit, Digit, Lit CHR '' '', Lit CHR ''-'', Lit CHR ''-'', Lit CHR ''>'']"

fun timeMatch :: "string \<Rightarrow> string option" where
  "timeMatch [] = None"
| "timeMatch (c # cs) =
     (if match_here time_pattern (c # cs) then Some (take 12 (c # cs)) else timeMatch cs)"

text \<open>
  The body of \<open>blocks.forEach\<close> for one block: the entry it pushes, if any. An
  exception thrown by \<open>parseTimestamp\<close> leaves \<open>parseSRT\<close>.
\<close>

definition block_entry :: "string \<Rightarrow> js_error + entry option" where
  "block_entry block =
     (let lines = block_lines block
      in if length lines \<ge> 3
         then (let id' = lines ! 0;
                   timeLine' = lines ! 1;
                   text' = join_space (drop 2 lines)
               in (case (case timeMatch timeLine' of
                           None \<Rightarrow> Inr (Num 0)
                         | Some g \<Rightarrow> parseTimestamp (Some g)) of
                     Inl err \<Rightarrow> Inl err
                   | Inr startSeconds' \<Rightarrow>
                       Inr (Some \<lparr>id_e = id', timeLine = timeLine', startSeconds = startSeconds',
                                  text_e = text', fullBlock = block\<rparr>)))
         else Inr None)"

fun parse_blocks :: "string list \<Rightarrow> entry list \<Rightarrow> js_error + entry list" where
  "parse_blocks [] entries = Inr entries"
| "parse_blocks (block # blocks) entries =
     (case block_entry block of
        Inl err \<Rightarrow> Inl err
      | Inr None \<Rightarrow> parse_blocks blocks entries
      | Inr (Some e) \<Rightarrow> parse_blocks blocks (entries @ [e]))"

definition parseSRT :: "string \<Rightarrow> js_error + entry list" where
  "parseSRT srtContent = parse_blocks (split_blocks (replace_crlf srtContent)) []"

text \<open>A start time that is a number and not negative.\<close>

fun nonneg :: "jsnum \<Rightarrow> bool" where
  "nonneg (Num x) = (0 \<le> x)"
| "nonneg NaN = False"

definition entry_ok :: "entry \<Rightarrow> bool" where
  "entry_ok e = (text_e e \<noteq> [] \<and> nonneg (startSeconds e))"

text \<open>A sample transcript of three blocks; the second block has two lines only.\<close>

definition srt_sample :: string where
  "srt_sample =
     ''1'' @ [CHR 0x0D, CHR 0x0A] @ ''00:00:01,500 --> 00:00:02,000'' @ [CHR 0x0D, CHR 0x0A]
       @ ''Hello'' @ [CHR 0x0D, CHR 0x0A] @ ''world'' @ [CHR 0x0D, CHR 0x0A, CHR 0x0D, CHR 0x0A]
     @ ''2'' @ [CHR 0x0A] @ ''00:00:03,000 --> 00:00:04,000'' @ [CHR 0x0A, CHR 0x0A]
     @ ''3'' @ [CHR 0x0A] @ ''no time here'' @ [CHR 0x0A] @ ''Bye''"

text \<open>A block of three lines, the second of which is one space.\<close>

definition block_with_blank_line :: string where
  "block_with_blank_line = ''1'' @ [CHR 0x0A] @ '' '' @ [CHR 0x0A] @ ''x''"

section \<open>The timeline chunker \<open>chunkSRTByDuration\<close>\<close>

text \<open>
  The body of the \<open>forEach\<close> of \<open>chunkSRTByDuration\<close>, as a recursion over the
  entries. The state is \<open>(chunks, currentChunk, chunkStartTime)\<close>; the first argument
  is \<open>durationSeconds\<close>.
\<close>

fun chunk_loop ::
  "jsnum \<Rightarrow> entry list \<Rightarrow> entry list list \<times> entry list \<times> jsnum
     \<Rightarrow> entry list list \<times> entry list \<times> jsnum" where
  "chunk_loop w [] st = st"
| "chunk_loop w (e # es) (chunks, currentChunk, chunkStartTime) =
     (let cst = (if js_seq chunkStartTime (Num (- 1)) then startSeconds e
                 else chunkStartTime)
      in if js_gt (js_sub (startSeconds e) cst) w \<and> currentChunk \<noteq> []
         then chunk_loop w es (chunks @ [currentChunk], [e], startSeconds e)
         else chunk_loop w es (chunks, currentChunk @ [e], cst))"

text \<open>
  \<open>chunkSRTByDuration(entries, durationMinutes)\<close>. The default \<open>durationMinutes = 10\<close>
  is what a caller passes who omits the argument.
\<close>

definition chunkSRTByDuration :: "entry list \<Rightarrow> real \<Rightarrow> entry list list" where
  "chunkSRTByDuration entries durationMinutes =
     (let durationSeconds = js_mul (Num durationMinutes) (Num 60)
      in case chunk_loop durationSeconds entries ([], [], Num (- 1)) of
           (chunks, currentChunk, chunkStartTime) \<Rightarrow>
             if currentChunk \<noteq> [] then chunks @ [currentChunk] else chunks)"

text \<open>Entries in non-decreasing order of \<open>startSeconds\<close>, compared with \<open><=\<close>.\<close>

fun sortedByStart :: "entry list \<Rightarrow> bool" where
  "sortedByStart [] = True"
| "sortedByStart (e # es) =
     (list_all (\<lambda>e'. js_le (startSeconds e) (startSeconds e')) es \<and> sortedByStart es)"

text \<open>
  A chunk is within the window \<open>w\<close> when it is not empty and its last entry starts at
  most \<open>w\<close> after its first one, or it has exactly one entry.
\<close>

definition within_window :: "jsnum \<Rightarrow> entry list \<Rightarrow> bool" where
  "within_window w c =
     (c \<noteq> [] \<and> (js_le (js_sub (startSeconds (last c)) (startSeconds (hd c))) w \<or> length c = 1))"

text \<open>A start time that is a number other than \<open>-1\<close>.\<close>

definition finite_start :: "entry \<Rightarrow> bool" where
  "finite_start e = (case startSeconds e of NaN \<Rightarrow> False | Num x \<Rightarrow> x \<noteq> - 1)"

text \<open>
  A transcript of three blocks, at 1.5, 3 and 1200 seconds, and the entries that
  \<open>parseSRT\<close> makes of them.
\<close>

definition srt_three :: string where
  "srt_three =
     ''1'' @ [CHR 0x0A] @ ''00:00:01,500 --> 00:00:02,000'' @ [CHR 0x0A] @ ''Hello''
       @ [CHR 0x0A, CHR 0x0A]
     @ ''2'' @ [CHR 0x0A] @ ''00:00:03,000 --> 00:00:04,000'' @ [CHR 0x0A] @ ''there''
       @ [CHR 0x0A, CHR 0x0A]
     @ ''3'' @ [CHR 0x0A] @ ''00:20:00,000 --> 00:20:01,000'' @ [CHR 0x0A] @ ''Bye''"

definition entry_hello :: entry where
  "entry_hello = \<lparr>id_e = ''1'', timeLine = ''00:00:01,500 --> 00:00:02,000'',
     startSeconds = Num 1.5, text_e = ''Hello'',
     fullBlock = ''1'' @ [CHR 0x0A] @ ''00:00:01,500 --> 00:00:02,000'' @ [CHR 0x0A] @ ''Hello''\<rparr>"

definition entry_there :: entry where
  "entry_there = \<lparr>id_e = ''2'', timeLine = ''00:00:03,000 --> 00:00:04,000'',
     startSeconds = Num 3, text_e = ''there'',
     fullBlock = ''2'' @ [CHR 0x0A] @ ''00:00:03,000 --> 00:00:04,000'' @ [CHR 0x0A] @ ''there''\<rparr>"

definition entry_bye :: entry where
  "entry_bye = \<lparr>id_e = ''3'', timeLine = ''00:20:00,000 --> 00:20:01,000'',
     startSeconds = Num 1200, text_e = ''Bye'',
     fullBlock = ''3'' @ [CHR 0x0A] @ ''00:20:00,000 --> 00:20:01,000'' @ [CHR 0x0A] @ ''Bye''\<rparr>"

section \<open>The silence segmenter of \<open>removeSilence\<close>\<close>

text \<open>
  A detected silence and a sound segment are both objects \<open>{start, end}\<close>; the fields
  are \<open>istart\<close> and \<open>iend\<close> here. Times are exact reals.
\<close>

record interval =
  istart :: real
  iend :: real

definition PADDING :: real where
  "PADDING = 0.1"

text \<open>
  The body of \<open>silences.forEach\<close>: the state is \<open>(sounds, lastEnd)\<close>, the first
  argument is \<open>totalDuration\<close>.
\<close>

fun invert_loop :: "real \<Rightarrow> interval list \<Rightarrow> interval list \<times> real \<Rightarrow> interval list \<times> real" where
  "invert_loop totalDuration [] st = st"
| "invert_loop totalDuration (s # ss) (sounds, lastEnd) =
     invert_loop totalDuration ss
       (if istart s - lastEnd > 0.1
        then sounds @ [\<lparr>istart = max 0 (lastEnd - PADDING),
                         iend = min totalDuration (istart s + PADDING)\<rparr>]
        else sounds,
        iend s)"

text \<open>
  The inversion of the silences into sound segments: the loop from
  \<open>sounds = [], lastEnd = 0\<close>, then the trailing segment.
\<close>

definition soundSegments :: "interval list \<Rightarrow> real \<Rightarrow> interval list" where
  "soundSegments silences totalDuration =
     (case invert_loop totalDuration silences ([], 0) of
        (sounds, lastEnd) \<Rightarrow>
          if lastEnd < totalDuration
          then sounds @ [\<lparr>istart = lastEnd - PADDING, iend = totalDuration\<rparr>]
          else sounds)"

text \<open>
  What \<open>removeSilence\<close> does with the detected silences and the duration: it copies
  the input file when there is no silence or no sound segment, and otherwise cuts the
  sound segments out and concatenates them.
\<close>

datatype silence_plan = CopyOriginal | Cut "interval list"

definition removeSilence :: "interval list \<Rightarrow> real \<Rightarrow> silence_plan" where
  "removeSilence silences totalDuration =
     (if length silences = 0 then CopyOriginal
      else let sounds = soundSegments silences totalDuration
           in if length sounds = 0 then CopyOriginal else Cut sounds)"


section \<open>The overlap resolver \<open>removeOverlaps\<close>\<close>

text \<open>
  A proposed moment is an object of the JSON answer of the model, parsed and merged
  with no check of its shape. The prompt of \<open>analyzeChunk\<close> asks for
  \<open>{start, end, titulo, score}\<close>; the fields \<open>start\<close> and \<open>end\<close> are \<open>cstart\<close> and
  \<open>cend\<close> here, and \<open>score\<close> may be absent. A moment may also carry properties named
  \<open>key\<close> and \<open>duration\<close> of its own, the two names that \<open>removeOverlaps\<close> writes and
  deletes: they are \<open>own_key\<close> (the property key that the value converts to) and
  \<open>own_duration\<close>. Times and scores are exact reals.
\<close>

record candidate =
  cstart :: real
  cend :: real
  titulo :: string
  score :: "real option"
  own_key :: "string option"
  own_duration :: "real option"

text \<open>
  \<open>momentsMap\<close> is an object whose own properties are the moments. It is modelled as
  the list of its entries in property order, which is what \<open>Object.entries\<close> returns;
  the keys of an object are distinct.
\<close>

type_synonym moments = "(string \<times> candidate) list"

text \<open>
  The element \<open>{key, ...val, duration: val.end - val.start}\<close> of \<open>clips\<close>. The spread
  comes after \<open>key\<close>, so a \<open>key\<close> of the moment's own replaces the key of the map; the
  \<open>duration\<close> comes after the spread, so it replaces a \<open>duration\<close> of the moment's
  own. The other properties spread from \<open>val\<close> are kept together in \<open>val\<close>.
\<close>

record clip =
  key :: string
  val :: candidate
  duration :: real

definition to_clips :: "moments \<Rightarrow> clip list" where
  "to_clips momentsMap =
     map (\<lambda>(k, v). \<lparr>key = (case own_key v of None \<Rightarrow> k | Some k' \<Rightarrow> k'),
                      val = v\<lparr>own_key := None, own_duration := None\<rparr>,
                      duration = cend v - cstart v\<rparr>) momentsMap"

text \<open>\<open>x.score || 0\<close>: an absent score reads as 0 (and the score 0 as itself).\<close>

definition scoreOr0 :: "candidate \<Rightarrow> real" where
  "scoreOr0 v = (case score v of None \<Rightarrow> 0 | Some s \<Rightarrow> s)"

text \<open>The comparison function given to \<open>clips.sort\<close>.\<close>

definition compareClips :: "clip \<Rightarrow> clip \<Rightarrow> real" where
  "compareClips a b =
     (let scoreA = scoreOr0 (val a); scoreB = scoreOr0 (val b)
      in if scoreB \<noteq> scoreA then scoreB - scoreA else duration b - duration a)"

text \<open>
  \<open>Array.prototype.sort\<close> is a stable sort: \<open>a\<close> comes before \<open>b\<close> when the
  comparison of \<open>a\<close> with \<open>b\<close> is negative, and elements that compare as equal keep
  their order. For a consistent comparison function this fixes the result, which an
  insertion sort from the right computes.
\<close>

fun insert_by :: "('a \<Rightarrow> 'a \<Rightarrow> real) \<Rightarrow> 'a \<Rightarrow> 'a list \<Rightarrow> 'a list" where
  "insert_by cmp x [] = [x]"
| "insert_by cmp x (y # ys) =
     (if cmp x y \<le> 0 then x # y # ys else y # insert_by cmp x ys)"

fun sort_by :: "('a \<Rightarrow> 'a \<Rightarrow> real) \<Rightarrow> 'a list \<Rightarrow> 'a list" where
  "sort_by cmp [] = []"
| "sort_by cmp (x # xs) = insert_by cmp x (sort_by cmp xs)"

text \<open>The test of the inner loop, with its buffer of half a second.\<close>

definition overlaps :: "clip \<Rightarrow> clip \<Rightarrow> bool" where
  "overlaps clip selected =
     (cstart (val clip) < cend (val selected) - 0.5
      \<and> cstart (val selected) < cend (val clip) - 0.5)"

text \<open>The greedy loop; the state is \<open>(selectedClips, rejectedClips)\<close>.\<close>

fun select_loop :: "clip list \<Rightarrow> clip list \<times> clip list \<Rightarrow> clip list \<times> clip list" where
  "select_loop [] st = st"
| "select_loop (clip # clips) (selectedClips, rejectedClips) =
     (let isOverlap = list_ex (\<lambda>selected. overlaps clip selected) selectedClips
      in if \<not> isOverlap
         then select_loop clips (selectedClips @ [clip], rejectedClips)
         else select_loop clips (selectedClips, rejectedClips @ [clip]))"

text \<open>
  \<open>result[k] = clip\<close>: an existing property keeps its place and takes the new value, a
  new one goes last. The value stored is the clip without \<open>key\<close> and \<open>duration\<close>.
  An engine lists the keys that are array indices first; the properties proved of the
  result are about the mapping \<open>map_of\<close> of it and do not depend on its order.
\<close>

fun obj_set :: "string \<Rightarrow> candidate \<Rightarrow> moments \<Rightarrow> moments" where
  "obj_set k v [] = [(k, v)]"
| "obj_set k v ((k', v') # ps) =
     (if k' = k then (k, v) # ps else (k', v') # obj_set k v ps)"

definition removeOverlaps :: "moments \<Rightarrow> moments" where
  "removeOverlaps momentsMap =
     (let clips = sort_by compareClips (to_clips momentsMap)
      in case select_loop clips ([], []) of
           (selectedClips, rejectedClips) \<Rightarrow>
             fold (\<lambda>clip result. obj_set (key clip) (val clip) result) selectedClips [])"

text \<open>No two clips under different keys overlap.\<close>

definition conflict_free :: "clip list \<Rightarrow> bool" where
  "conflict_free cs = (\<forall>a \<in> set cs. \<forall>b \<in> set cs. key a \<noteq> key b \<longrightarrow> \<not> overlaps a b)"

text \<open>Moments with no \<open>key\<close> and no \<open>duration\<close> of their own.\<close>

definition plain :: "moments \<Rightarrow> bool" where
  "plain momentsMap = list_all (\<lambda>(k, v). own_key v = None \<and> own_duration v = None) momentsMap"

text \<open>Three moments: \<open>b\<close> overlaps \<open>a\<close>, and \<open>c\<close> overlaps neither.\<close>

definition moments_abc :: moments where
  "moments_abc =
     [(''a'', \<lparr>cstart = 0, cend = 50, titulo = ''A'', score = Some 90,
               own_key = None, own_duration = None\<rparr>),
      (''b'', \<lparr>cstart = 40, cend = 90, titulo = ''B'', score = Some 80,
               own_key = None, own_duration = None\<rparr>),
      (''c'', \<lparr>cstart = 100, cend = 150, titulo = ''C'', score = Some 70,
               own_key = None, own_duration = None\<rparr>)]"

text \<open>One moment that has a property \<open>key\<close> of its own.\<close>

definition moments_own_key :: moments where
  "moments_own_key =
     [(''chunk0_c1'', \<lparr>cstart = 0, cend = 10, titulo = ''T'', score = Some 90,
                       own_key = Some ''c1'', own_duration = None\<rparr>)]"

text \<open>
  Two moments of two chunks that do not overlap and carry the same \<open>key\<close> of their
  own.
\<close>

definition moments_same_key :: moments where
  "moments_same_key =
     [(''chunk0_c1'', \<lparr>cstart = 0, cend = 10, titulo = ''A'', score = Some 90,
                       own_key = Some ''c1'', own_duration = None\<rparr>),
      (''chunk1_c1'', \<lparr>cstart = 20, cend = 30, titulo = ''B'', score = Some 10,
                       own_key = Some ''c1'', own_duration = None\<rparr>)]"

section \<open>Properties of the timestamp codec\<close>

lemma digitD:
  "is_digit c \<Longrightarrow> c \<noteq> CHR '':'' \<and> c \<noteq> CHR '','' \<and> c \<noteq> CHR ''-'' \<and> c \<noteq> CHR ''+''
     \<and> c \<noteq> CHR ''x'' \<and> c \<noteq> CHR ''X'' \<and> \<not> is_ws c
     \<and> is_radix_digit 10 c \<and> digit_of c = Some (of_char c - 48)"
  by (auto simp: is_digit_def is_ws_def is_radix_digit_def digit_of_def Let_def)

lemma parseInt_digits:
  assumes ne: "ds \<noteq> []" and dig: "list_all is_digit ds"
  shows "parseInt (Some ds) = Num (real (digits_value 10 ds))"
proof -
  obtain a rest where ds: "ds = a # rest" using ne by (cases ds) auto
  have a: "is_digit a" using dig ds by simp
  have ws: "dropWhile is_ws ds = ds" using digitD [OF a] ds by simp
  have sg: "hd ds \<noteq> CHR ''-''" "hd ds \<noteq> CHR ''+''" using digitD [OF a] ds by simp_all
  have hx: "take 2 ds \<noteq> ''0x''" "take 2 ds \<noteq> ''0X''"
  proof -
    show "take 2 ds \<noteq> ''0x''"
    proof (cases rest)
      case Nil
      then show ?thesis using ds by simp
    next
      case (Cons b rest')
      then have "is_digit b" using dig ds by simp
      then show ?thesis using digitD [of b] ds Cons by auto
    qed
    show "take 2 ds \<noteq> ''0X''"
    proof (cases rest)
      case Nil
      then show ?thesis using ds by simp
    next
      case (Cons b rest')
      then have "is_digit b" using dig ds by simp
      then show ?thesis using digitD [of b] ds Cons by auto
    qed
  qed
  have tw: "takeWhile (is_radix_digit 10) ds = ds"
    using dig digitD by (simp add: list_all_iff)
  have "parseInt_string ds = Num (1 * real (digits_value 10 ds))"
    unfolding parseInt_string_def Let_def ws
    using ne sg hx by (simp add: tw)
  then show ?thesis by (simp add: parseInt_def)
qed

lemma digits_value_2:
  "is_digit a \<Longrightarrow> is_digit b \<Longrightarrow>
     real (digits_value 10 [a, b]) = 10 * digit_value a + digit_value b"
  by (simp add: digits_value_def digit_value_def digitD)

lemma digits_value_3:
  "is_digit a \<Longrightarrow> is_digit b \<Longrightarrow> is_digit c \<Longrightarrow>
     real (digits_value 10 [a, b, c]) = 100 * digit_value a + 10 * digit_value b + digit_value c"
  by (simp add: digits_value_def digit_value_def digitD)

lemma parseTimestamp_parts:
  assumes "t \<noteq> []" and "split_on CHR '':'' t = h # m # s # rest"
    and "split_on CHR '','' s = sec # ms # rest'"
  shows "parseTimestamp (Some t) =
     Inr (js_add (js_add (js_add (js_mul (parseInt (Some h)) (Num 3600))
                                 (js_mul (parseInt (Some m)) (Num 60)))
                         (parseInt (Some sec)))
                 (js_div (parseInt (Some ms)) (Num 1000)))"
  using assms by (simp add: parseTimestamp_def nth_opt_def Let_def)

lemma parseTimestamp_digits:
  assumes "is_digit h1" "is_digit h2" "is_digit m1" "is_digit m2" "is_digit s1" "is_digit s2"
    "is_digit f1" "is_digit f2" "is_digit f3"
  shows "parseTimestamp (Some [h1, h2, CHR '':'', m1, m2, CHR '':'', s1, s2, CHR '','', f1, f2, f3])
    = Inr (Num ((10 * digit_value h1 + digit_value h2) * 3600
               + (10 * digit_value m1 + digit_value m2) * 60
               + (10 * digit_value s1 + digit_value s2)
               + (100 * digit_value f1 + 10 * digit_value f2 + digit_value f3) / 1000))"
proof -
  have sp: "split_on CHR '':'' [h1, h2, CHR '':'', m1, m2, CHR '':'', s1, s2, CHR '','', f1, f2, f3]
       = [[h1, h2], [m1, m2], [s1, s2, CHR '','', f1, f2, f3]]"
    using assms by (simp add: digitD)
  have sp2: "split_on CHR '','' [s1, s2, CHR '','', f1, f2, f3] = [[s1, s2], [f1, f2, f3]]"
    using assms by (simp add: digitD)
  have ph: "parseInt (Some [h1, h2]) = Num (10 * digit_value h1 + digit_value h2)"
    using assms by (simp add: parseInt_digits digits_value_2)
  have pm: "parseInt (Some [m1, m2]) = Num (10 * digit_value m1 + digit_value m2)"
    using assms by (simp add: parseInt_digits digits_value_2)
  have ps: "parseInt (Some [s1, s2]) = Num (10 * digit_value s1 + digit_value s2)"
    using assms by (simp add: parseInt_digits digits_value_2)
  have pf: "parseInt (Some [f1, f2, f3])
              = Num (100 * digit_value f1 + 10 * digit_value f2 + digit_value f3)"
    using assms by (simp add: parseInt_digits digits_value_3)
  show ?thesis
    by (simp add: parseTimestamp_parts [OF _ sp sp2] ph pm ps pf js_add_def js_mul_def js_div_def)
qed

lemma split_on_absent: "sep \<notin> set t \<Longrightarrow> split_on sep t = [t]"
  by (induction t) auto

text \<open>
  C6. On a string \<open>HH:MM:SS,mmm\<close> of digits, \<open>parseTimestamp\<close> returns
  \<open>h * 3600 + m * 60 + s + ms / 1000\<close>, where \<open>h\<close>, \<open>m\<close>, \<open>s\<close> and \<open>ms\<close> are the
  numbers that the digits write in base ten; on \<open>00:01:05,250\<close> it returns 65.25; on
  the empty string and on \<open>undefined\<close> it returns 0 and throws nothing.
\<close>

theorem parseTimestamp_well_formed:
  assumes "is_digit h1" "is_digit h2" "is_digit m1" "is_digit m2" "is_digit s1" "is_digit s2"
    "is_digit f1" "is_digit f2" "is_digit f3"
  shows "parseTimestamp (Some [h1, h2, CHR '':'', m1, m2, CHR '':'', s1, s2, CHR '','', f1, f2, f3])
      = Inr (Num ((10 * digit_value h1 + digit_value h2) * 3600
                 + (10 * digit_value m1 + digit_value m2) * 60
                 + (10 * digit_value s1 + digit_value s2)
                 + (100 * digit_value f1 + 10 * digit_value f2 + digit_value f3) / 1000))
    \<and> parseTimestamp (Some ''00:01:05,250'') = Inr (Num 65.25)
    \<and> parseTimestamp (Some []) = Inr (Num 0)
    \<and> parseTimestamp None = Inr (Num 0)"
proof -
  have d0: "is_digit CHR ''0''" and d1: "is_digit CHR ''1''" and d2: "is_digit CHR ''2''"
    and d5: "is_digit CHR ''5''"
    by (simp_all add: is_digit_def)
  have "parseTimestamp (Some ''00:01:05,250'') = Inr (Num 65.25)"
    using parseTimestamp_digits [OF d0 d0 d0 d1 d0 d5 d2 d5 d0]
    by (simp add: digit_value_def)
  moreover have "parseTimestamp (Some []) = Inr (Num 0)" "parseTimestamp None = Inr (Num 0)"
    by (simp_all add: parseTimestamp_def)
  ultimately show ?thesis
    using parseTimestamp_digits [OF assms] by blast
qed

theorem parseTimestamp_well_formed_witness:
  "is_digit CHR ''1'' \<and> is_digit CHR ''2'' \<and> is_digit CHR ''3'' \<and> is_digit CHR ''4''
   \<and> is_digit CHR ''5'' \<and> is_digit CHR ''6'' \<and> is_digit CHR ''7'' \<and> is_digit CHR ''8''
   \<and> is_digit CHR ''9''
   \<and> parseTimestamp (Some ''12:34:56,789'') = Inr (Num 45296.789)"
proof -
  have d1: "is_digit CHR ''1''" and d2: "is_digit CHR ''2''" and d3: "is_digit CHR ''3''"
    and d4: "is_digit CHR ''4''" and d5: "is_digit CHR ''5''" and d6: "is_digit CHR ''6''"
    and d7: "is_digit CHR ''7''" and d8: "is_digit CHR ''8''" and d9: "is_digit CHR ''9''"
    by (simp_all add: is_digit_def)
  have "parseTimestamp (Some ''12:34:56,789'') = Inr (Num 45296.789)"
    using parseTimestamp_well_formed [OF d1 d2 d3 d4 d5 d6 d7 d8 d9]
    by (simp add: digit_value_def)
  then show ?thesis using d1 d2 d3 d4 d5 d6 d7 d8 d9 by blast
qed

text \<open>
  C9. On every non-empty string with no colon, \<open>parseTimestamp\<close> throws a
  \<open>TypeError\<close> and does not return 0: the third piece of the split is \<open>undefined\<close>,
  and only the empty string and \<open>undefined\<close> are guarded.
\<close>

theorem parseTimestamp_raises_without_colon:
  assumes "t \<noteq> []" and "CHR '':'' \<notin> set t"
  shows "parseTimestamp (Some t) = Inl TypeError"
  using assms by (simp add: parseTimestamp_def split_on_absent nth_opt_def Let_def)

theorem parseTimestamp_raises_without_colon_witness:
  "''abc'' \<noteq> [] \<and> CHR '':'' \<notin> set ''abc'' \<and> parseTimestamp (Some ''abc'') = Inl TypeError"
proof -
  have h1: "''abc'' \<noteq> []" by simp
  have h2: "CHR '':'' \<notin> set ''abc''" by simp
  show ?thesis
    using parseTimestamp_raises_without_colon [OF h1 h2] h1 h2 by blast
qed

section \<open>Properties of the subtitle parser\<close>

lemma match_here_Cons:
  "match_here (p # ps) cs \<longleftrightarrow> (\<exists>c cs'. cs = c # cs' \<and> char_ok p c \<and> match_here ps cs')"
  by (cases cs) auto

lemma time_pattern_match:
  assumes "match_here time_pattern cs"
  shows "\<exists>h1 h2 m1 m2 s1 s2 f1 f2 f3.
           take 12 cs = [h1, h2, CHR '':'', m1, m2, CHR '':'', s1, s2, CHR '','', f1, f2, f3]
           \<and> is_digit h1 \<and> is_digit h2 \<and> is_digit m1 \<and> is_digit m2 \<and> is_digit s1
           \<and> is_digit s2 \<and> is_digit f1 \<and> is_digit f2 \<and> is_digit f3"
  using assms unfolding time_pattern_def
  by (auto simp: match_here_Cons)


lemma timeMatch_Some:
  "timeMatch l = Some g \<Longrightarrow> \<exists>cs. match_here time_pattern cs \<and> g = take 12 cs"
  by (induction l) (auto split: if_splits)

lemma digit_value_nonneg: "0 \<le> digit_value c"
  by (simp add: digit_value_def)

lemma timeMatch_parses:
  assumes "timeMatch l = Some g"
  shows "\<exists>r. parseTimestamp (Some g) = Inr (Num r) \<and> 0 \<le> r"
proof -
  obtain cs where m: "match_here time_pattern cs" and g: "g = take 12 cs"
    using timeMatch_Some [OF assms] by blast
  obtain h1 h2 m1 m2 s1 s2 f1 f2 f3 where
    t: "take 12 cs = [h1, h2, CHR '':'', m1, m2, CHR '':'', s1, s2, CHR '','', f1, f2, f3]"
    and d: "is_digit h1" "is_digit h2" "is_digit m1" "is_digit m2" "is_digit s1"
      "is_digit s2" "is_digit f1" "is_digit f2" "is_digit f3"
    using time_pattern_match [OF m] by blast
  let ?r = "(10 * digit_value h1 + digit_value h2) * 3600
               + (10 * digit_value m1 + digit_value m2) * 60
               + (10 * digit_value s1 + digit_value s2)
               + (100 * digit_value f1 + 10 * digit_value f2 + digit_value f3) / 1000"
  have "parseTimestamp (Some g) = Inr (Num ?r)"
    unfolding g t using d by (rule parseTimestamp_digits)
  moreover have "0 \<le> ?r"
    by (intro add_nonneg_nonneg mult_nonneg_nonneg divide_nonneg_nonneg digit_value_nonneg) simp_all
  ultimately show ?thesis by blast
qed

lemma trim_nonempty: "trim l \<noteq> [] \<Longrightarrow> l \<noteq> []"
  by (auto simp: trim_def)

lemma join_space_nonempty: "ls \<noteq> [] \<Longrightarrow> hd ls \<noteq> [] \<Longrightarrow> join_space ls \<noteq> []"
  by (induction ls rule: join_space.induct) auto

lemma block_entry_result:
  "\<exists>e. block_entry block = Inr (if 3 \<le> length (block_lines block) then Some e else None)
       \<and> fullBlock e = block \<and> entry_ok e"
proof (cases "3 \<le> length (block_lines block)")
  case False
  have "entry_ok \<lparr>id_e = [], timeLine = [], startSeconds = Num 0, text_e = ''x'', fullBlock = block\<rparr>"
    by (simp add: entry_ok_def)
  then show ?thesis using False by (force simp: block_entry_def Let_def)
next
  case True
  let ?lines = "block_lines block"
  let ?text = "join_space (drop 2 ?lines)"
  have nonempty: "\<forall>l \<in> set ?lines. l \<noteq> []"
    using trim_nonempty by (auto simp: block_lines_def)
  have rest: "drop 2 ?lines \<noteq> []" using True by simp
  then have "hd (drop 2 ?lines) \<in> set (drop 2 ?lines)" by (rule hd_in_set)
  then have "hd (drop 2 ?lines) \<in> set ?lines" by (rule in_set_dropD)
  then have "hd (drop 2 ?lines) \<noteq> []" using nonempty by blast
  with rest have tne: "?text \<noteq> []" by (rule join_space_nonempty)
  obtain r where r: "(case timeMatch (?lines ! 1) of None \<Rightarrow> Inr (Num 0)
                       | Some g \<Rightarrow> parseTimestamp (Some g)) = Inr (Num r)" and r0: "0 \<le> r"
  proof (cases "timeMatch (?lines ! 1)")
    case None
    then show ?thesis using that [of 0] by simp
  next
    case (Some g)
    then show ?thesis using timeMatch_parses [OF Some] that by auto
  qed
  let ?e = "\<lparr>id_e = ?lines ! 0, timeLine = ?lines ! 1, startSeconds = Num r,
              text_e = ?text, fullBlock = block\<rparr>"
  have "block_entry block = Inr (Some ?e)"
    using True r by (simp add: block_entry_def Let_def)
  moreover have "entry_ok ?e" using tne r0 by (simp add: entry_ok_def)
  ultimately show ?thesis using True by force
qed

lemma parse_blocks_result:
  "\<exists>es. parse_blocks blocks acc = Inr (acc @ es)
        \<and> map fullBlock es = filter (\<lambda>b. 3 \<le> length (block_lines b)) blocks
        \<and> list_all entry_ok es"
proof (induction blocks arbitrary: acc)
  case Nil
  then show ?case by simp
next
  case (Cons b blocks)
  obtain e where e: "block_entry b = Inr (if 3 \<le> length (block_lines b) then Some e else None)"
    and fb: "fullBlock e = b" and ok: "entry_ok e"
    using block_entry_result by blast
  show ?case
  proof (cases "3 \<le> length (block_lines b)")
    case True
    obtain es where "parse_blocks blocks (acc @ [e]) = Inr ((acc @ [e]) @ es)"
      "map fullBlock es = filter (\<lambda>b. 3 \<le> length (block_lines b)) blocks" "list_all entry_ok es"
      using Cons.IH by blast
    then have "parse_blocks (b # blocks) acc = Inr (acc @ (e # es))
        \<and> map fullBlock (e # es) = filter (\<lambda>b. 3 \<le> length (block_lines b)) (b # blocks)
        \<and> list_all entry_ok (e # es)"
      using True e fb ok by simp
    then show ?thesis by blast
  next
    case False
    obtain es where "parse_blocks blocks acc = Inr (acc @ es)"
      "map fullBlock es = filter (\<lambda>b. 3 \<le> length (block_lines b)) blocks" "list_all entry_ok es"
      using Cons.IH by blast
    then have "parse_blocks (b # blocks) acc = Inr (acc @ es)
        \<and> map fullBlock es = filter (\<lambda>b. 3 \<le> length (block_lines b)) (b # blocks)
        \<and> list_all entry_ok es"
      using False e by simp
    then show ?thesis by blast
  qed
qed

text \<open>
  C8 (amended). \<open>parseSRT\<close> throws nothing and returns, in order, exactly one entry
  for each block that has at least 3 lines which are not empty after trimming white
  space, and nothing for any other block; each entry has a non-empty text and a start
  time that is a number not below 0. With no such block the result is the empty
  list.
\<close>

theorem parseSRT_one_entry_per_block:
  "\<exists>entries. parseSRT srtContent = Inr entries
     \<and> map fullBlock entries
         = filter (\<lambda>block. 3 \<le> length (block_lines block)) (split_blocks (replace_crlf srtContent))
     \<and> list_all entry_ok entries"
  using parse_blocks_result [of "split_blocks (replace_crlf srtContent)" "[]"]
  by (simp add: parseSRT_def)

theorem parseSRT_one_entry_per_block_witness:
  "\<exists>entries. parseSRT srt_sample = Inr entries
     \<and> map fullBlock entries =
         [''1'' @ [CHR 0x0A] @ ''00:00:01,500 --> 00:00:02,000'' @ [CHR 0x0A] @ ''Hello''
            @ [CHR 0x0A] @ ''world'',
          ''3'' @ [CHR 0x0A] @ ''no time here'' @ [CHR 0x0A] @ ''Bye'']
     \<and> list_all entry_ok entries"
proof -
  have "filter (\<lambda>block. 3 \<le> length (block_lines block)) (split_blocks (replace_crlf srt_sample))
      = [''1'' @ [CHR 0x0A] @ ''00:00:01,500 --> 00:00:02,000'' @ [CHR 0x0A] @ ''Hello''
            @ [CHR 0x0A] @ ''world'',
          ''3'' @ [CHR 0x0A] @ ''no time here'' @ [CHR 0x0A] @ ''Bye'']"
    by (simp add: srt_sample_def block_lines_def trim_def is_ws_def)
  then show ?thesis
    using parseSRT_one_entry_per_block [of srt_sample] by simp
qed

text \<open>
  C8 as stated fails: the block made of the lines \<open>1\<close>, one space and \<open>x\<close> has three
  non-empty lines, and \<open>parseSRT\<close> returns no entry for it, because the line of one
  space is empty after trimming and is filtered out.
\<close>

theorem parseSRT_blank_line_counterexample:
  "split_blocks (replace_crlf block_with_blank_line) = [block_with_blank_line]
   \<and> split_on (CHR 0x0A) block_with_blank_line = [''1'', '' '', ''x'']
   \<and> ''1'' \<noteq> [] \<and> '' '' \<noteq> [] \<and> ''x'' \<noteq> []
   \<and> parseSRT block_with_blank_line = Inr []"
  by (simp add: block_with_blank_line_def parseSRT_def block_entry_def block_lines_def
      trim_def is_ws_def)

section \<open>Properties of the chunker\<close>

lemma chunk_loop_concat:
  "chunk_loop w es (chunks, cur, cst) = (chunks', cur', cst') \<Longrightarrow>
     concat chunks' @ cur' = concat chunks @ cur @ es"
proof (induction es arbitrary: chunks cur cst)
  case Nil
  then show ?case by simp
next
  case (Cons e es)
  then show ?case
    by (auto simp: Let_def split: if_splits)
qed

lemma chunk_loop_nonempty:
  "chunk_loop w es (chunks, cur, cst) = (chunks', cur', cst') \<Longrightarrow>
     [] \<notin> set chunks \<Longrightarrow> [] \<notin> set chunks'"
proof (induction es arbitrary: chunks cur cst)
  case Nil
  then show ?case by simp
next
  case (Cons e es)
  then show ?case
    by (auto simp: Let_def split: if_splits)
qed

text \<open>
  C3. Whatever the entries and the window are (sorted or not, window positive or not),
  the chunks of \<open>chunkSRTByDuration\<close>, concatenated in order, are the entry sequence
  itself, and no chunk is empty.
\<close>

theorem chunks_partition_entries:
  "concat (chunkSRTByDuration entries durationMinutes) = entries
   \<and> [] \<notin> set (chunkSRTByDuration entries durationMinutes)"
proof -
  obtain chunks cur cst where
    run: "chunk_loop (js_mul (Num durationMinutes) (Num 60)) entries ([], [], Num (- 1))
            = (chunks, cur, cst)"
    by (cases "chunk_loop (js_mul (Num durationMinutes) (Num 60)) entries ([], [], Num (- 1))")
  have c: "concat chunks @ cur = entries"
    using chunk_loop_concat [OF run] by simp
  have n: "[] \<notin> set chunks"
    using chunk_loop_nonempty [OF run] by simp
  show ?thesis
    using run c n by (auto simp: chunkSRTByDuration_def)
qed

lemma chunk_loop_window:
  "chunk_loop w es (chunks, cur, cst) = (chunks', cur', cst') \<Longrightarrow>
   w = Num wr \<Longrightarrow>
   list_all finite_start (cur @ es) \<Longrightarrow>
   list_all (within_window w) chunks \<Longrightarrow>
   (if cur = [] then cst = Num (- 1) else cst = startSeconds (hd cur) \<and> within_window w cur) \<Longrightarrow>
   list_all (within_window w) chunks' \<and> (cur' = [] \<or> within_window w cur')"
proof (induction es arbitrary: chunks cur cst)
  case Nil
  then show ?case by (auto split: if_splits)
next
  case (Cons e es)
  obtain x where x: "startSeconds e = Num x" "x \<noteq> - 1"
    using Cons.prems(3) by (auto simp: finite_start_def split: jsnum.splits)
  show ?case
  proof (cases "cur = []")
    case True
    then have run: "chunk_loop w es (chunks, [e], startSeconds e) = (chunks', cur', cst')"
      using Cons.prems(1,5) by (simp add: Let_def)
    show ?thesis
    proof (rule Cons.IH [OF run Cons.prems(2)])
      show "list_all finite_start ([e] @ es)" using Cons.prems(3) True by simp
      show "list_all (within_window w) chunks" by (rule Cons.prems(4))
      show "if [e] = [] then startSeconds e = Num (- 1)
            else startSeconds e = startSeconds (hd [e]) \<and> within_window w [e]"
        by (simp add: within_window_def)
    qed
  next
    case False
    then obtain c where c: "cst = Num c" "c \<noteq> - 1" "startSeconds (hd cur) = Num c"
      and wc: "within_window w cur"
      using Cons.prems(3,5) by (cases cur) (auto simp: finite_start_def split: jsnum.splits)
    show ?thesis
    proof (cases "js_gt (js_sub (startSeconds e) cst) w")
      case True
      then have run: "chunk_loop w es (chunks @ [cur], [e], startSeconds e) = (chunks', cur', cst')"
        using Cons.prems(1) False c by (simp add: Let_def)
      show ?thesis
      proof (rule Cons.IH [OF run Cons.prems(2)])
        show "list_all finite_start ([e] @ es)" using Cons.prems(3) by simp
        show "list_all (within_window w) (chunks @ [cur])" using Cons.prems(4) wc by simp
        show "if [e] = [] then startSeconds e = Num (- 1)
              else startSeconds e = startSeconds (hd [e]) \<and> within_window w [e]"
          by (simp add: within_window_def)
      qed
    next
      case nogt: False
      then have run: "chunk_loop w es (chunks, cur @ [e], cst) = (chunks', cur', cst')"
        using Cons.prems(1) False c by (simp add: Let_def)
      show ?thesis
      proof (rule Cons.IH [OF run Cons.prems(2)])
        show "list_all finite_start ((cur @ [e]) @ es)" using Cons.prems(3) by simp
        show "list_all (within_window w) chunks" by (rule Cons.prems(4))
        show "if cur @ [e] = [] then cst = Num (- 1)
              else cst = startSeconds (hd (cur @ [e])) \<and> within_window w (cur @ [e])"
          using False c nogt x Cons.prems(2)
          by (cases cur) (auto simp: within_window_def js_sub_def)
      qed
    qed
  qed
qed

text \<open>
  \<open>chunkStartTime\<close> starts as \<open>-1\<close>, the mark of a chunk with no start time yet.
  \<open>chunkSRTByDuration\<close> is not exported and is called on the result of \<open>parseSRT\<close>
  only, whose entries start at a number that is not negative, so no entry starts at
  the mark.
\<close>

lemma entry_ok_finite_start: "entry_ok e \<Longrightarrow> finite_start e"
  by (cases "startSeconds e") (auto simp: entry_ok_def finite_start_def)

lemma parseSRT_entries_ok: "parseSRT srtContent = Inr entries \<Longrightarrow> list_all entry_ok entries"
  using parse_blocks_result [of "split_blocks (replace_crlf srtContent)" "[]"]
  by (auto simp: parseSRT_def)

lemma chunks_within_window:
  assumes fin: "list_all finite_start entries"
    and c: "c \<in> set (chunkSRTByDuration entries durationMinutes)"
  shows "within_window (Num (durationMinutes * 60)) c"
proof -
  obtain chunks cur cst where
    run: "chunk_loop (Num (durationMinutes * 60)) entries ([], [], Num (- 1))
            = (chunks, cur, cst)"
    by (cases "chunk_loop (Num (durationMinutes * 60)) entries ([], [], Num (- 1))")
  have fin': "list_all finite_start ([] @ entries)" using fin by simp
  have "list_all (within_window (Num (durationMinutes * 60))) chunks
        \<and> (cur = [] \<or> within_window (Num (durationMinutes * 60)) cur)"
    by (rule chunk_loop_window [OF run refl fin']) simp_all
  then show ?thesis
    using c run by (auto simp: chunkSRTByDuration_def js_mul_def list_all_iff split: if_splits)
qed

text \<open>
  C2. For every entry sequence that \<open>chunkSRTByDuration\<close> receives, that is every
  result of \<open>parseSRT\<close>, sorted by \<open>startSeconds\<close>, and every window of
  \<open>durationMinutes * 60 > 0\<close> seconds, every chunk has its last entry starting at most
  the window after its first one, or has exactly one entry.
\<close>

theorem chunk_span_within_window:
  assumes parsed: "parseSRT srtContent = Inr entries"
    and sorted: "sortedByStart entries"
    and window: "0 < durationMinutes * 60"
    and c: "c \<in> set (chunkSRTByDuration entries durationMinutes)"
  shows "js_le (js_sub (startSeconds (last c)) (startSeconds (hd c)))
           (Num (durationMinutes * 60)) \<or> length c = 1"
proof -
  have "list_all entry_ok entries" using parsed by (rule parseSRT_entries_ok)
  then have "list_all finite_start entries"
    using entry_ok_finite_start by (simp add: list_all_iff)
  then have "within_window (Num (durationMinutes * 60)) c"
    using c by (rule chunks_within_window)
  then show ?thesis by (simp add: within_window_def)
qed

theorem chunk_span_within_window_witness:
  "parseSRT srt_three = Inr [entry_hello, entry_there, entry_bye]
   \<and> sortedByStart [entry_hello, entry_there, entry_bye]
   \<and> 0 < (12::real) * 60
   \<and> chunkSRTByDuration [entry_hello, entry_there, entry_bye] 12
       = [[entry_hello, entry_there], [entry_bye]]
   \<and> (js_le (js_sub (startSeconds (last [entry_hello, entry_there]))
                (startSeconds (hd [entry_hello, entry_there]))) (Num (12 * 60))
       \<or> length [entry_hello, entry_there] = 1)"
proof -
  have h1: "parseSRT srt_three = Inr [entry_hello, entry_there, entry_bye]"
    by code_simp
  have h2: "sortedByStart [entry_hello, entry_there, entry_bye]"
    by (simp add: entry_hello_def entry_there_def entry_bye_def)
  have h3: "0 < (12::real) * 60" by simp
  have r: "chunkSRTByDuration [entry_hello, entry_there, entry_bye] 12
             = [[entry_hello, entry_there], [entry_bye]]"
    by (simp add: chunkSRTByDuration_def entry_hello_def entry_there_def entry_bye_def
        js_mul_def js_sub_def Let_def)
  have h4: "[entry_hello, entry_there]
              \<in> set (chunkSRTByDuration [entry_hello, entry_there, entry_bye] 12)"
    by (simp add: r)
  show ?thesis
    using chunk_span_within_window [OF h1 h2 h3 h4] h1 h2 h3 r by blast
qed

section \<open>Properties of the silence segmenter\<close>

text \<open>
  C4. With the silences \<open>{5, 6}\<close> and \<open>{10, 12}\<close> and a total duration of 20 (the
  padding and the gap threshold are both 0.1 in the source), the inversion gives the
  three sound segments \<open>{0, 5.1}\<close>, \<open>{5.9, 10.1}\<close> and \<open>{11.9, 20}\<close>, in this order,
  and they are what \<open>removeSilence\<close> cuts.
\<close>

theorem sound_segments_example:
  "soundSegments [\<lparr>istart = 5, iend = 6\<rparr>, \<lparr>istart = 10, iend = 12\<rparr>] 20
     = [\<lparr>istart = 0, iend = 5.1\<rparr>, \<lparr>istart = 5.9, iend = 10.1\<rparr>, \<lparr>istart = 11.9, iend = 20\<rparr>]
   \<and> removeSilence [\<lparr>istart = 5, iend = 6\<rparr>, \<lparr>istart = 10, iend = 12\<rparr>] 20
     = Cut [\<lparr>istart = 0, iend = 5.1\<rparr>, \<lparr>istart = 5.9, iend = 10.1\<rparr>, \<lparr>istart = 11.9, iend = 20\<rparr>]"
  by (simp add: removeSilence_def soundSegments_def PADDING_def)


section \<open>Properties of the overlap resolver\<close>

lemma mset_insert_by: "mset (insert_by cmp x xs) = add_mset x (mset xs)"
  by (induction xs) auto

lemma mset_sort_by: "mset (sort_by cmp xs) = mset xs"
  by (induction xs) (auto simp: mset_insert_by)

lemma set_sort_by: "set (sort_by cmp xs) = set xs"
  by (metis mset_sort_by set_mset_mset)

lemma distinct_keys_sort_by:
  "distinct (map f (sort_by cmp xs)) = distinct (map f xs)"
proof -
  have "mset (map f (sort_by cmp xs)) = mset (map f xs)"
    by (simp add: mset_sort_by)
  then show ?thesis by (rule mset_eq_imp_distinct_iff)
qed

lemma strip_plain:
  "own_key v = None \<Longrightarrow> own_duration v = None \<Longrightarrow> v\<lparr>own_key := None, own_duration := None\<rparr> = v"
  by (cases v) simp

lemma to_clips_plain:
  "plain m \<Longrightarrow>
     to_clips m = map (\<lambda>(k, v). \<lparr>key = k, val = v, duration = cend v - cstart v\<rparr>) m"
  by (induction m) (auto simp: to_clips_def plain_def strip_plain)

lemma key_to_clips: "plain m \<Longrightarrow> map key (to_clips m) = map fst m"
  by (induction m) (auto simp: to_clips_plain plain_def)

lemma set_to_clips:
  "plain m \<Longrightarrow> c \<in> set (to_clips m) \<longleftrightarrow>
     ((key c, val c) \<in> set m \<and> duration c = cend (val c) - cstart (val c))"
  by (induction m) (auto simp: to_clips_plain plain_def)

lemma val_to_clips:
  "c \<in> set (to_clips m) \<Longrightarrow> own_key (val c) = None \<and> own_duration (val c) = None"
  by (auto simp: to_clips_def)

lemma overlaps_sym: "overlaps a b \<Longrightarrow> overlaps b a"
  by (simp add: overlaps_def)

lemma select_loop_Cons_cases:
  assumes "select_loop (c # cs) (sel, rej) = r"
  obtains "list_ex (overlaps c) sel" "select_loop cs (sel, rej @ [c]) = r"
  | "\<not> list_ex (overlaps c) sel" "select_loop cs (sel @ [c], rej) = r"
  using assms by (auto simp: Let_def split: if_splits)

lemma select_loop_subset:
  "select_loop cs (sel, rej) = (sel', rej') \<Longrightarrow> set sel' \<subseteq> set sel \<union> set cs"
proof (induction cs arbitrary: sel rej)
  case Nil
  then show ?case by simp
next
  case (Cons c cs)
  from Cons.prems show ?case
  proof (rule select_loop_Cons_cases)
    assume "select_loop cs (sel, rej @ [c]) = (sel', rej')"
    from Cons.IH [OF this] show ?thesis by auto
  next
    assume "select_loop cs (sel @ [c], rej) = (sel', rej')"
    from Cons.IH [OF this] show ?thesis by auto
  qed
qed

lemma select_loop_prefix:
  "select_loop cs (sel, rej) = (sel', rej') \<Longrightarrow> \<exists>t. sel' = sel @ t"
proof (induction cs arbitrary: sel rej)
  case Nil
  then show ?case by simp
next
  case (Cons c cs)
  from Cons.prems show ?case
  proof (rule select_loop_Cons_cases)
    assume "select_loop cs (sel, rej @ [c]) = (sel', rej')"
    from Cons.IH [OF this] show ?thesis .
  next
    assume "select_loop cs (sel @ [c], rej) = (sel', rej')"
    from Cons.IH [OF this] show ?thesis by auto
  qed
qed

lemma select_loop_distinct:
  "select_loop cs (sel, rej) = (sel', rej') \<Longrightarrow> distinct (map key (sel @ cs)) \<Longrightarrow>
     distinct (map key sel')"
proof (induction cs arbitrary: sel rej)
  case Nil
  then show ?case by simp
next
  case (Cons c cs)
  from Cons.prems(1) show ?case
  proof (rule select_loop_Cons_cases)
    assume run: "select_loop cs (sel, rej @ [c]) = (sel', rej')"
    have "distinct (map key (sel @ cs))" using Cons.prems(2) by simp
    with run show ?thesis by (rule Cons.IH)
  next
    assume run: "select_loop cs (sel @ [c], rej) = (sel', rej')"
    have "distinct (map key ((sel @ [c]) @ cs))" using Cons.prems(2) by simp
    with run show ?thesis by (rule Cons.IH)
  qed
qed

lemma select_loop_conflict_free:
  "select_loop cs (sel, rej) = (sel', rej') \<Longrightarrow> conflict_free sel \<Longrightarrow> conflict_free sel'"
proof (induction cs arbitrary: sel rej)
  case Nil
  then show ?case by simp
next
  case (Cons c cs)
  from Cons.prems(1) show ?case
  proof (rule select_loop_Cons_cases)
    assume "select_loop cs (sel, rej @ [c]) = (sel', rej')"
    then show ?thesis using Cons.prems(2) by (rule Cons.IH)
  next
    assume no: "\<not> list_ex (overlaps c) sel"
      and run: "select_loop cs (sel @ [c], rej) = (sel', rej')"
    have "conflict_free (sel @ [c])"
      using Cons.prems(2) no overlaps_sym by (auto simp: conflict_free_def list_ex_iff)
    with run show ?thesis by (rule Cons.IH)
  qed
qed

lemma select_loop_all:
  "conflict_free (sel @ cs) \<Longrightarrow> distinct (map key (sel @ cs)) \<Longrightarrow>
     select_loop cs (sel, rej) = (sel @ cs, rej)"
proof (induction cs arbitrary: sel)
  case Nil
  then show ?case by simp
next
  case (Cons c cs)
  have "\<not> overlaps c s" if "s \<in> set sel" for s
  proof -
    have "key c \<noteq> key s" using Cons.prems(2) that by auto
    moreover have "c \<in> set (sel @ c # cs)" "s \<in> set (sel @ c # cs)" using that by simp_all
    ultimately show ?thesis using Cons.prems(1) unfolding conflict_free_def by blast
  qed
  then have "\<not> list_ex (\<lambda>selected. overlaps c selected) sel"
    by (simp add: list_ex_iff)
  moreover have "select_loop cs (sel @ [c], rej) = ((sel @ [c]) @ cs, rej)"
  proof (rule Cons.IH)
    show "conflict_free ((sel @ [c]) @ cs)" using Cons.prems(1) by simp
    show "distinct (map key ((sel @ [c]) @ cs))" using Cons.prems(2) by simp
  qed
  ultimately show ?case by (simp add: Let_def)
qed

lemma obj_set_fresh: "k \<notin> fst ` set ps \<Longrightarrow> obj_set k v ps = ps @ [(k, v)]"
  by (induction ps) auto

lemma set_obj_set: "set (obj_set k v ps) \<subseteq> insert (k, v) (set ps)"
  by (induction ps) (auto split: if_splits)

lemma keys_obj_set:
  "map fst (obj_set k v ps) = (if k \<in> fst ` set ps then map fst ps else map fst ps @ [k])"
proof (induction ps)
  case Nil
  then show ?case by simp
next
  case (Cons p ps)
  obtain k' v' where p: "p = (k', v')" by (cases p)
  show ?case using Cons.IH by (cases "k' = k") (simp_all add: p)
qed

lemma distinct_obj_set: "distinct (map fst ps) \<Longrightarrow> distinct (map fst (obj_set k v ps))"
  by (simp add: keys_obj_set)

lemma fold_obj_set_distinct:
  "distinct (map fst acc) \<Longrightarrow>
     distinct (map fst (fold (\<lambda>clip result. obj_set (key clip) (val clip) result) cs acc))"
  by (induction cs arbitrary: acc) (simp_all add: distinct_obj_set)

lemma fold_obj_set_subset:
  "set (fold (\<lambda>clip result. obj_set (key clip) (val clip) result) cs acc)
     \<subseteq> set acc \<union> (\<lambda>c. (key c, val c)) ` set cs"
proof (induction cs arbitrary: acc)
  case Nil
  then show ?case by simp
next
  case (Cons c cs)
  have "set (fold (\<lambda>clip result. obj_set (key clip) (val clip) result) cs
               (obj_set (key c) (val c) acc))
          \<subseteq> set (obj_set (key c) (val c) acc) \<union> (\<lambda>c. (key c, val c)) ` set cs"
    by (rule Cons.IH)
  then show ?case using set_obj_set [of "key c" "val c" acc] by auto
qed

lemma fold_obj_set:
  "distinct (map fst acc @ map key cs) \<Longrightarrow>
     fold (\<lambda>clip result. obj_set (key clip) (val clip) result) cs acc
       = acc @ map (\<lambda>c. (key c, val c)) cs"
proof (induction cs arbitrary: acc)
  case Nil
  then show ?case by simp
next
  case (Cons c cs)
  have "obj_set (key c) (val c) acc = acc @ [(key c, val c)]"
    using Cons.prems by (intro obj_set_fresh) auto
  moreover have "distinct (map fst (acc @ [(key c, val c)]) @ map key cs)"
    using Cons.prems by auto
  ultimately show ?case using Cons.IH [of "acc @ [(key c, val c)]"] by simp
qed

text \<open>
  What \<open>removeOverlaps\<close> returns: an object with distinct keys, each property of
  which is a selected clip under the key that the clip carries, and the selected clips
  are free of conflicts.
\<close>

lemma removeOverlaps_char:
  obtains sel rej where
    "select_loop (sort_by compareClips (to_clips m)) ([], []) = (sel, rej)"
    "removeOverlaps m = fold (\<lambda>clip result. obj_set (key clip) (val clip) result) sel []"
    "distinct (map fst (removeOverlaps m))"
    "set (removeOverlaps m) \<subseteq> (\<lambda>c. (key c, val c)) ` set sel"
    "conflict_free sel" "set sel \<subseteq> set (to_clips m)"
proof -
  obtain sel rej where
    run: "select_loop (sort_by compareClips (to_clips m)) ([], []) = (sel, rej)"
    by (cases "select_loop (sort_by compareClips (to_clips m)) ([], [])")
  have r: "removeOverlaps m = fold (\<lambda>clip result. obj_set (key clip) (val clip) result) sel []"
    using run by (simp add: removeOverlaps_def)
  have d: "distinct (map fst (removeOverlaps m))"
    unfolding r by (rule fold_obj_set_distinct) simp
  have s: "set (removeOverlaps m) \<subseteq> (\<lambda>c. (key c, val c)) ` set sel"
    unfolding r using fold_obj_set_subset [of sel "[]"] by simp
  have cf: "conflict_free sel"
    using select_loop_conflict_free [OF run] by (simp add: conflict_free_def)
  have sub: "set sel \<subseteq> set (to_clips m)"
    using select_loop_subset [OF run] by (simp add: set_sort_by)
  from run r d s cf sub show ?thesis by (rule that)
qed

text \<open>The moments of the result have no \<open>key\<close> and no \<open>duration\<close> of their own.\<close>

lemma removeOverlaps_plain: "plain (removeOverlaps m)"
proof -
  obtain sel where s: "set (removeOverlaps m) \<subseteq> (\<lambda>c. (key c, val c)) ` set sel"
    and sub: "set sel \<subseteq> set (to_clips m)"
    using removeOverlaps_char [of m] by blast
  have "own_key v = None \<and> own_duration v = None"
    if kv: "(k, v) \<in> set (removeOverlaps m)" for k v
  proof -
    obtain c where "c \<in> set sel" "val c = v" using s kv by auto
    then show ?thesis using sub val_to_clips [of c m] by auto
  qed
  then show ?thesis by (auto simp: plain_def list_all_iff)
qed

text \<open>
  On every input, two moments of the result under different keys do not overlap:
  \<open>A.start < B.end - 0.5\<close> and \<open>B.start < A.end - 0.5\<close> never hold together.
\<close>

lemma removeOverlaps_non_overlapping:
  assumes ne: "k1 \<noteq> k2"
    and a: "map_of (removeOverlaps m) k1 = Some a"
    and b: "map_of (removeOverlaps m) k2 = Some b"
  shows "\<not> (cstart a < cend b - 0.5 \<and> cstart b < cend a - 0.5)"
proof -
  obtain sel where s: "set (removeOverlaps m) \<subseteq> (\<lambda>c. (key c, val c)) ` set sel"
    and cf: "conflict_free sel"
    using removeOverlaps_char [of m] by blast
  obtain c1 where c1: "c1 \<in> set sel" "key c1 = k1" "val c1 = a"
    using s map_of_SomeD [OF a] by auto
  obtain c2 where c2: "c2 \<in> set sel" "key c2 = k2" "val c2 = b"
    using s map_of_SomeD [OF b] by auto
  have "\<not> overlaps c1 c2" using cf ne c1 c2 by (auto simp: conflict_free_def)
  then show ?thesis using c1 c2 by (simp add: overlaps_def)
qed

text \<open>
  An object whose moments are already free of conflicts, and carry no \<open>key\<close> or
  \<open>duration\<close> of their own, is returned as it is, whatever the order of its
  properties.
\<close>

lemma removeOverlaps_fixed:
  assumes d: "distinct (map fst ys)" and p: "plain ys" and cf: "conflict_free (to_clips ys)"
  shows "map_of (removeOverlaps ys) = map_of ys"
proof -
  let ?clips = "sort_by compareClips (to_clips ys)"
  have dk: "distinct (map key ?clips)"
    using d p by (simp add: distinct_keys_sort_by key_to_clips)
  have cf': "conflict_free ?clips"
    using cf by (simp add: conflict_free_def set_sort_by)
  have run: "select_loop ?clips ([], []) = (?clips, [])"
    using select_loop_all [of "[]" ?clips "[]"] dk cf' by simp
  have r: "removeOverlaps ys = map (\<lambda>c. (key c, val c)) ?clips"
    using run fold_obj_set [of "[]" ?clips] dk by (simp add: removeOverlaps_def)
  have "set (map (\<lambda>c. (key c, val c)) ?clips) = set ys"
    using p by (force simp: set_sort_by to_clips_plain)
  moreover have "distinct (map fst (map (\<lambda>c. (key c, val c)) ?clips))"
    using dk by (simp add: comp_def)
  ultimately show ?thesis
    using d unfolding r by (simp add: map_of_inject_set)
qed

text \<open>
  C7. \<open>removeOverlaps\<close> is idempotent: applied to its own result, it returns the same
  mapping from keys to moments.
\<close>

theorem removeOverlaps_idempotent:
  assumes d: "distinct (map fst momentsMap)"
  shows "map_of (removeOverlaps (removeOverlaps momentsMap)) = map_of (removeOverlaps momentsMap)"
proof -
  obtain sel where
    s: "set (removeOverlaps momentsMap) \<subseteq> (\<lambda>c. (key c, val c)) ` set sel"
    and d': "distinct (map fst (removeOverlaps momentsMap))" and cf: "conflict_free sel"
    using removeOverlaps_char [of momentsMap] by blast
  have p: "plain (removeOverlaps momentsMap)" by (rule removeOverlaps_plain)
  have "conflict_free (to_clips (removeOverlaps momentsMap))"
    unfolding conflict_free_def
  proof (intro ballI impI)
    fix a b
    assume a: "a \<in> set (to_clips (removeOverlaps momentsMap))"
      and b: "b \<in> set (to_clips (removeOverlaps momentsMap))"
      and ne: "key a \<noteq> key b"
    have "(key a, val a) \<in> set (removeOverlaps momentsMap)"
      using a p by (simp add: set_to_clips)
    then obtain a' where a': "a' \<in> set sel" "key a' = key a" "val a' = val a"
      using s by auto
    have "(key b, val b) \<in> set (removeOverlaps momentsMap)"
      using b p by (simp add: set_to_clips)
    then obtain b' where b': "b' \<in> set sel" "key b' = key b" "val b' = val b"
      using s by auto
    have "\<not> overlaps a' b'" using cf a' b' ne by (auto simp: conflict_free_def)
    then show "\<not> overlaps a b" using a' b' by (simp add: overlaps_def)
  qed
  with d' p show ?thesis by (rule removeOverlaps_fixed)
qed


theorem removeOverlaps_idempotent_witness:
  "distinct (map fst moments_abc)
   \<and> removeOverlaps moments_abc =
       [(''a'', \<lparr>cstart = 0, cend = 50, titulo = ''A'', score = Some 90,
                 own_key = None, own_duration = None\<rparr>),
        (''c'', \<lparr>cstart = 100, cend = 150, titulo = ''C'', score = Some 70,
                 own_key = None, own_duration = None\<rparr>)]
   \<and> map_of (removeOverlaps (removeOverlaps moments_abc)) = map_of (removeOverlaps moments_abc)"
proof -
  have d: "distinct (map fst moments_abc)"
    by (simp add: moments_abc_def)
  have r: "removeOverlaps moments_abc =
      [(''a'', \<lparr>cstart = 0, cend = 50, titulo = ''A'', score = Some 90,
                own_key = None, own_duration = None\<rparr>),
       (''c'', \<lparr>cstart = 100, cend = 150, titulo = ''C'', score = Some 70,
                own_key = None, own_duration = None\<rparr>)]"
    by (simp add: removeOverlaps_def moments_abc_def to_clips_def compareClips_def
        scoreOr0_def overlaps_def Let_def)
  show ?thesis
    using removeOverlaps_idempotent [OF d] d r by blast
qed

text \<open>
  When no moment carries a \<open>key\<close> or a \<open>duration\<close> of its own, every property of
  the result is a property of the input, with the same value.
\<close>

lemma removeOverlaps_subset_plain:
  assumes d: "distinct (map fst m)" and p: "plain m"
    and kv: "map_of (removeOverlaps m) k = Some v"
  shows "map_of m k = Some v"
proof -
  obtain sel where s: "set (removeOverlaps m) \<subseteq> (\<lambda>c. (key c, val c)) ` set sel"
    and sub: "set sel \<subseteq> set (to_clips m)"
    using removeOverlaps_char [of m] by blast
  obtain c where "c \<in> set sel" "key c = k" "val c = v"
    using s map_of_SomeD [OF kv] by auto
  then have "(k, v) \<in> set m" using sub p by (auto simp: set_to_clips)
  then show ?thesis using d by simp
qed

text \<open>The first clip in the sorted order has the highest score.\<close>

lemma hd_sort_by_max:
  "xs \<noteq> [] \<Longrightarrow> sort_by compareClips xs \<noteq> []
     \<and> (\<forall>x \<in> set xs. scoreOr0 (val x) \<le> scoreOr0 (val (hd (sort_by compareClips xs))))"
proof (induction xs)
  case Nil
  then show ?case by simp
next
  case (Cons x xs)
  show ?case
  proof (cases "xs = []")
    case True
    then show ?thesis by simp
  next
    case False
    then obtain y ys where s: "sort_by compareClips xs = y # ys"
      and m: "\<forall>z \<in> set xs. scoreOr0 (val z) \<le> scoreOr0 (val y)"
      using Cons.IH by (cases "sort_by compareClips xs") auto
    show ?thesis
    proof (cases "compareClips x y \<le> 0")
      case True
      then have "scoreOr0 (val y) \<le> scoreOr0 (val x)"
        by (auto simp: compareClips_def Let_def split: if_splits)
      then show ?thesis using s m True by fastforce
    next
      case False
      then have "scoreOr0 (val x) \<le> scoreOr0 (val y)"
        by (auto simp: compareClips_def Let_def split: if_splits)
      then show ?thesis using s m False by fastforce
    qed
  qed
qed

text \<open>
  When no moment carries a \<open>key\<close> or a \<open>duration\<close> of its own, the result of a
  non-empty input is not empty and holds a moment of the highest score: the greedy pass
  accepts the first clip of the sorted order.
\<close>

lemma removeOverlaps_top_score_plain:
  assumes d: "distinct (map fst m)" and p: "plain m" and ne: "m \<noteq> []"
  shows "removeOverlaps m \<noteq> []
       \<and> (\<exists>k v. map_of (removeOverlaps m) k = Some v
             \<and> (\<forall>k' v'. map_of m k' = Some v' \<longrightarrow> scoreOr0 v' \<le> scoreOr0 v))"
proof -
  obtain sel rej where
    run: "select_loop (sort_by compareClips (to_clips m)) ([], []) = (sel, rej)"
    by (cases "select_loop (sort_by compareClips (to_clips m)) ([], [])")
  have f: "removeOverlaps m = fold (\<lambda>clip result. obj_set (key clip) (val clip) result) sel []"
    using run by (simp add: removeOverlaps_def)
  have dk: "distinct (map key (sort_by compareClips (to_clips m)))"
    using d p by (simp add: distinct_keys_sort_by key_to_clips)
  have ds: "distinct (map key sel)"
    using select_loop_distinct [OF run] dk by simp
  have r: "removeOverlaps m = map (\<lambda>c. (key c, val c)) sel"
    unfolding f using fold_obj_set [of "[]" sel] ds by simp
  have "to_clips m \<noteq> []" using ne by (simp add: to_clips_def)
  then obtain c cs where s: "sort_by compareClips (to_clips m) = c # cs"
    and m: "\<forall>x \<in> set (to_clips m). scoreOr0 (val x) \<le> scoreOr0 (val c)"
    using hd_sort_by_max [of "to_clips m"]
    by (cases "sort_by compareClips (to_clips m)") auto
  have "select_loop cs ([c], []) = (sel, rej)"
    using run s by (simp add: Let_def)
  then obtain t where sel: "sel = [c] @ t"
    using select_loop_prefix by blast
  have dr: "distinct (map fst (removeOverlaps m))"
    using ds by (simp add: r comp_def)
  have "(key c, val c) \<in> set (removeOverlaps m)"
    by (simp add: r sel)
  then have k: "map_of (removeOverlaps m) (key c) = Some (val c)"
    using dr by simp
  have top: "\<forall>k' v'. map_of m k' = Some v' \<longrightarrow> scoreOr0 v' \<le> scoreOr0 (val c)"
  proof (intro allI impI)
    fix k' v'
    assume "map_of m k' = Some v'"
    then have "(k', v') \<in> set m" by (rule map_of_SomeD)
    then have "\<lparr>key = k', val = v', duration = cend v' - cstart v'\<rparr> \<in> set (to_clips m)"
      using p by (simp add: set_to_clips)
    then show "scoreOr0 v' \<le> scoreOr0 (val c)" using m by fastforce
  qed
  have "removeOverlaps m \<noteq> []" by (simp add: r sel)
  with k top show ?thesis by blast
qed

text \<open>
  C1, at an input where the code departs from it. The result should be a subset of
  the input. For the one moment \<open>chunk0_c1\<close> that has a property \<open>key\<close> of its own,
  \<open>c1\<close>, the spread \<open>...val\<close> after \<open>key\<close> puts \<open>c1\<close> in the place of the key of the
  map, and the result holds the moment under \<open>c1\<close>, which is no key of the input.
\<close>

theorem removeOverlaps_own_key_replaces_map_key:
  "distinct (map fst moments_own_key)
   \<and> removeOverlaps moments_own_key =
       [(''c1'', \<lparr>cstart = 0, cend = 10, titulo = ''T'', score = Some 90,
                  own_key = None, own_duration = None\<rparr>)]
   \<and> map_of (removeOverlaps moments_own_key) ''c1''
       = Some \<lparr>cstart = 0, cend = 10, titulo = ''T'', score = Some 90,
               own_key = None, own_duration = None\<rparr>
   \<and> map_of moments_own_key ''c1'' = None"
  by (simp add: removeOverlaps_def moments_own_key_def to_clips_def compareClips_def
      scoreOr0_def overlaps_def Let_def)

text \<open>
  C10, at an input where the code departs from it. The result should hold a moment
  of the highest score. Two moments that do not overlap, of scores 90 and 10, carry
  the same \<open>key\<close> of their own, \<open>c1\<close>: both are selected, both are stored under
  \<open>c1\<close>, the second over the first, and the result holds the moment of score 10
  only.
\<close>

theorem removeOverlaps_same_key_loses_top_score:
  "distinct (map fst moments_same_key) \<and> moments_same_key \<noteq> []
   \<and> map_of moments_same_key ''chunk0_c1''
       = Some \<lparr>cstart = 0, cend = 10, titulo = ''A'', score = Some 90,
               own_key = Some ''c1'', own_duration = None\<rparr>
   \<and> scoreOr0 \<lparr>cstart = 0, cend = 10, titulo = ''A'', score = Some 90,
                 own_key = Some ''c1'', own_duration = None\<rparr> = 90
   \<and> removeOverlaps moments_same_key =
       [(''c1'', \<lparr>cstart = 20, cend = 30, titulo = ''B'', score = Some 10,
                  own_key = None, own_duration = None\<rparr>)]
   \<and> scoreOr0 \<lparr>cstart = 20, cend = 30, titulo = ''B'', score = Some 10,
                 own_key = None, own_duration = None\<rparr> = 10"
  by (simp add: removeOverlaps_def moments_same_key_def to_clips_def compareClips_def
      scoreOr0_def overlaps_def Let_def)

end
